theory Spec2Isabelle
  imports Complex_Main
begin

section \<open>Values\<close>

text \<open>
  The program computes with numpy arrays of double-precision floats. The embedding
  reads every float as a real number and every one-dimensional array as a list; a
  2-vector is a pair and a 2x2 array is a pair of rows. Only the division of the panel
  normals, where numpy yields NaN or an infinity instead of raising, keeps the
  non-finite results (see \<open>np_divide\<close>).
\<close>

type_synonym vec2 = "real \<times> real"
type_synonym mat2 = "vec2 \<times> vec2"

text \<open>\<open>np.dot\<close> of a 2x2 array with a 2-vector, and the transpose \<open>.T\<close>.\<close>

fun dot :: "mat2 \<Rightarrow> vec2 \<Rightarrow> vec2" where
  "dot ((a, b), (c, d)) (x, y) = (a * x + b * y, c * x + d * y)"

fun transpose_mat :: "mat2 \<Rightarrow> mat2" where
  "transpose_mat ((a, b), (c, d)) = ((a, c), (b, d))"

fun vadd :: "vec2 \<Rightarrow> vec2 \<Rightarrow> vec2" where
  "vadd (a, b) (c, d) = (a + c, b + d)"

fun vneg :: "vec2 \<Rightarrow> vec2" where
  "vneg (a, b) = (- a, - b)"

fun vscale :: "vec2 \<Rightarrow> real \<Rightarrow> vec2" where
  "vscale (a, b) k = (a * k, b * k)"

section \<open>EuclideanTransformation\<close>

text \<open>
  The object has three private fields: \<open>_angle\<close>, the matrix \<open>_R\<close> and
  \<open>_displacement\<close>. The setter of \<open>angle\<close> stores the value and recomputes the matrix
  \<open>[[cos th, sin th], [-sin th, cos th]]\<close> with \<open>th = value * pi / 180\<close>.
\<close>

record EuclideanTransformation =
  angle :: real
  Rm :: mat2
  displacement :: vec2

definition set_angle :: "EuclideanTransformation \<Rightarrow> real \<Rightarrow> EuclideanTransformation" where
  "set_angle self v =
     (let th = v * pi / 180
      in self\<lparr>angle := v, Rm := ((cos th, sin th), (- sin th, cos th))\<rparr>)"

definition set_displacement :: "EuclideanTransformation \<Rightarrow> vec2 \<Rightarrow> EuclideanTransformation" where
  "set_displacement self v = self\<lparr>displacement := v\<rparr>"

text \<open>\<open>__init__\<close> runs the two setters on a fresh object.\<close>

definition EuclideanTransformation_init :: "real \<Rightarrow> vec2 \<Rightarrow> EuclideanTransformation" where
  "EuclideanTransformation_init a d =
     set_displacement (set_angle \<lparr>angle = 0, Rm = ((0, 0), (0, 0)), displacement = (0, 0)\<rparr> a) d"

definition inverse_xf :: "EuclideanTransformation \<Rightarrow> EuclideanTransformation" where
  "inverse_xf self =
     EuclideanTransformation_init (- angle self)
       (vneg (dot (transpose_mat (Rm self)) (displacement self)))"

text \<open>\<open>compose\<close>: the argument \<open>other\<close> may be \<open>None\<close>.\<close>

definition compose :: "EuclideanTransformation \<Rightarrow> EuclideanTransformation option
    \<Rightarrow> EuclideanTransformation" where
  "compose self other =
     (case other of
        None \<Rightarrow> self
      | Some other' \<Rightarrow>
          EuclideanTransformation_init (angle self + angle other')
            (vadd (dot (Rm self) (displacement other')) (displacement self)))"

text \<open>
  \<open>xform_position\<close> on a single 2-vector: the rotation is applied when the angle is
  non-zero, the displacement is added when one of its components is non-zero.
\<close>

definition xform_position :: "EuclideanTransformation \<Rightarrow> vec2 \<Rightarrow> vec2" where
  "xform_position self v =
     (let v1 = (if angle self \<noteq> 0 then dot (Rm self) v else v)
      in if fst (displacement self) \<noteq> 0 \<or> snd (displacement self) \<noteq> 0
         then vadd v1 (displacement self) else v1)"

text \<open>The rotation matrix the setter derives from an angle in degrees.\<close>

definition rotation :: "real \<Rightarrow> mat2" where
  "rotation a = ((cos (a * pi / 180), sin (a * pi / 180)),
                 (- sin (a * pi / 180), cos (a * pi / 180)))"

section \<open>Exceptions and numpy primitives\<close>

text \<open>The only exception the modelled code raises is Python's \<open>ValueError\<close>, with its message.\<close>

datatype error = ValueError string

text \<open>
  Division of float arrays does not raise on a zero divisor: \<open>0/0\<close> is NaN and
  \<open>x/0\<close> is a signed infinity.
\<close>

datatype npfloat = Fin real | NaN | PosInf | NegInf

definition np_divide :: "real \<Rightarrow> real \<Rightarrow> npfloat" where
  "np_divide x y =
     (if y = 0 then (if x = 0 then NaN else if 0 < x then PosInf else NegInf)
      else Fin (x / y))"

text \<open>\<open>np.diff\<close> of a one-dimensional array: successive differences.\<close>

definition np_diff :: "real list \<Rightarrow> real list" where
  "np_diff xs = map (\<lambda>(a, b). b - a) (zip xs (tl xs))"

text \<open>
  \<open>np.vstack([x, y])\<close> builds the two-row array; rows of different lengths are a
  \<open>ValueError\<close>. A two-row array is the pair of its rows.
\<close>

definition np_vstack :: "real list \<Rightarrow> real list \<Rightarrow> error + (real list \<times> real list)" where
  "np_vstack x y =
     (if length x = length y then Inr (x, y)
      else Inl (ValueError ''all the input array dimensions except for the concatenation axis must match exactly''))"

section \<open>BoundVortexPanels\<close>

record BoundVortexPanels =
  numpanels :: nat
  normals :: "npfloat list \<times> npfloat list"
  xvort :: "real list \<times> real list"
  xcoll :: "real list \<times> real list"
  gam :: "real list"

text \<open>
  \<open>__init__\<close>, given the two coordinate arrays that \<open>body.get_points(body_frame=True)\<close>
  returns. The split index \<open>half = numpanels / 2\<close> is the integer division of Python 2,
  the language the repository is written in.

  The edge length \<open>np.linalg.norm(dq, axis=0)\<close> is taken over the reals. On an edge
  whose two end points are identical the differences are exactly zero, so the length is
  zero and the quotient is \<open>0/0\<close>, in the code as here. On an edge of non-zero length
  the double-precision length can round, underflow to zero or overflow to infinity,
  which the real number does not show: \<open>normals\<close> stands for the code's array only
  on zero-length edges, and nothing below is stated about the normals of other edges.
\<close>

definition BoundVortexPanels_init :: "real list \<Rightarrow> real list \<Rightarrow> error + BoundVortexPanels" where
  "BoundVortexPanels_init x y =
     (case np_vstack x y of
        Inl e \<Rightarrow> Inl e
      | Inr q \<Rightarrow>
          (let dq = (np_diff (fst q), np_diff (snd q));
               n = length (fst dq);
               nrm = map (\<lambda>(dx, dy). sqrt (dx * dx + dy * dy)) (zip (fst dq) (snd dq));
               nls = (map (\<lambda>(a, b). np_divide a b) (zip (snd dq) nrm),
                      map (\<lambda>(a, b). np_divide a b) (zip (map uminus (fst dq)) nrm));
               q25 = (map (\<lambda>(a, d). a + 0.25 * d) (zip (butlast (fst q)) (fst dq)),
                      map (\<lambda>(a, d). a + 0.25 * d) (zip (butlast (snd q)) (snd dq)));
               q75 = (map (\<lambda>(a, d). a + 0.75 * d) (zip (butlast (fst q)) (fst dq)),
                      map (\<lambda>(a, d). a + 0.75 * d) (zip (butlast (snd q)) (snd dq)));
               half = n div 2
           in Inr \<lparr>numpanels = n,
                    normals = nls,
                    xvort = (take half (fst q75) @ drop half (fst q25),
                             take half (snd q75) @ drop half (snd q25)),
                    xcoll = (take half (fst q25) @ drop half (fst q75),
                             take half (snd q25) @ drop half (snd q75)),
                    gam = replicate n 0\<rparr>))"

text \<open>The read-only properties \<open>vortices\<close>, \<open>collocation_pts\<close> and \<open>normals\<close>, per panel.\<close>

definition vortex_pt :: "BoundVortexPanels \<Rightarrow> nat \<Rightarrow> vec2" where
  "vortex_pt P i = (fst (xvort P) ! i, snd (xvort P) ! i)"

definition collocation_pt :: "BoundVortexPanels \<Rightarrow> nat \<Rightarrow> vec2" where
  "collocation_pt P i = (fst (xcoll P) ! i, snd (xcoll P) ! i)"

definition normal_at :: "BoundVortexPanels \<Rightarrow> nat \<Rightarrow> npfloat \<times> npfloat" where
  "normal_at P i = (fst (normals P) ! i, snd (normals P) ! i)"

text \<open>
  The point at fraction \<open>f\<close> of the edge from the \<open>i\<close>-th boundary point to the next one.
\<close>

definition edge_point :: "real list \<Rightarrow> real list \<Rightarrow> nat \<Rightarrow> real \<Rightarrow> vec2" where
  "edge_point x y i f =
     (x ! i + f * (x ! Suc i - x ! i), y ! i + f * (y ! Suc i - y ! i))"

section \<open>Airfoil\<close>

text \<open>The decimal digits of a natural number, as \<open>str\<close> prints them.\<close>

definition digit_char :: "nat \<Rightarrow> char" where
  "digit_char d = ''0123456789'' ! d"

fun dec_digits :: "nat \<Rightarrow> string" where
  "dec_digits n = (if n < 10 then [digit_char n] else dec_digits (n div 10) @ [digit_char (n mod 10)])"

declare dec_digits.simps [simp del]

text \<open>
  \<open>"%04d" % n\<close>: the decimal digits, padded with zeros on the left to a width of four
  characters; the sign of a negative number takes one of the four places.
\<close>

definition format_04d :: "int \<Rightarrow> string" where
  "format_04d n =
     (if n < 0
      then CHR ''-'' # replicate (3 - length (dec_digits (nat (- n)))) CHR ''0'' @ dec_digits (nat (- n))
      else replicate (4 - length (dec_digits (nat n))) CHR ''0'' @ dec_digits (nat n))"

text \<open>
  \<open>int(s)\<close> on the pieces of the formatted code: a non-empty string of decimal digits
  is its value, and the only other piece that can occur, the sign alone, is a
  \<open>ValueError\<close>.
\<close>

definition is_digit :: "char \<Rightarrow> bool" where
  "is_digit c = (48 \<le> (of_char c :: nat) \<and> (of_char c :: nat) \<le> 57)"

definition digit_val :: "char \<Rightarrow> int" where
  "digit_val c = int (of_char c) - 48"

definition py_int :: "string \<Rightarrow> error + int" where
  "py_int s =
     (if s \<noteq> [] \<and> list_all is_digit s then Inr (foldl (\<lambda>acc c. 10 * acc + digit_val c) 0 s)
      else Inl (ValueError ''invalid literal for int() with base 10''))"

text \<open>
  \<open>np.linspace(start, stop, num)\<close>, \<open>np.polyval\<close> (Horner's scheme, highest
  coefficient first).
\<close>

definition linspace :: "real \<Rightarrow> real \<Rightarrow> nat \<Rightarrow> real list" where
  "linspace start stop num =
     (if num = 1 then [start]
      else map (\<lambda>i. start + real i * ((stop - start) / real (num - 1))) [0..<num])"

definition polyval :: "real list \<Rightarrow> real \<Rightarrow> real" where
  "polyval cs x = foldl (\<lambda>acc c. acc * x + c) 0 cs"

text \<open>The chordwise stations \<open>x\<close>.\<close>

definition stations :: "bool \<Rightarrow> nat \<Rightarrow> real list" where
  "stations uniform num_points =
     (if uniform then linspace 0 1 num_points
      else map (\<lambda>theta. 1 - cos theta) (linspace 0 (0.5 * pi) num_points))"

text \<open>The thickness \<open>y_thick\<close> and the camber \<open>y_camber\<close> at one station.\<close>

definition thick_at :: "real \<Rightarrow> bool \<Rightarrow> real \<Rightarrow> real" where
  "thick_at thickness zero_thick_te x =
     (let coefs = [if zero_thick_te then -0.1036 else -0.1015, 0.2843, -0.3516, -0.1260, 0, 0.2969]
      in 5 * thickness * (polyval (take 5 coefs) x + coefs ! 5 * sqrt x))"

definition camber_at :: "real \<Rightarrow> real \<Rightarrow> real \<Rightarrow> real" where
  "camber_at max_camber p x =
     (if p \<noteq> 0
      then (if x \<le> p then max_camber * x / p\<^sup>2 * (2 * p - x)
            else max_camber * ((1 - x) / (1 - p)\<^sup>2 * (1 + x - 2 * p)))
      else 0)"

record Airfoil =
  a_x :: "real list"
  a_y :: "real list"

text \<open>
  \<open>__init__\<close>. The argument \<open>code\<close> is the value of \<open>int(code)\<close>; \<open>x[-1:0:-1]\<close> is the
  array reversed without its element 0.
\<close>

definition Airfoil_init :: "int \<Rightarrow> nat \<Rightarrow> bool \<Rightarrow> bool \<Rightarrow> error + Airfoil" where
  "Airfoil_init code num_points zero_thick_te uniform =
     (let code_str = format_04d code
      in if length code_str \<noteq> 4 then Inl (ValueError ''NACA designation is more than 4 digits'')
         else
           (case py_int [code_str ! 0] of Inl e \<Rightarrow> Inl e | Inr d0 \<Rightarrow>
           (case py_int [code_str ! 1] of Inl e \<Rightarrow> Inl e | Inr d1 \<Rightarrow>
           (case py_int (drop 2 code_str) of Inl e \<Rightarrow> Inl e | Inr d23 \<Rightarrow>
              (let max_camber = 0.01 * real_of_int d0;
                   p = 0.1 * real_of_int d1;
                   thickness = 0.01 * real_of_int d23;
                   x = stations uniform num_points;
                   y_thick = map (thick_at thickness zero_thick_te) x;
                   y_camber = map (camber_at max_camber p) x
               in Inr \<lparr>a_x = rev (tl x) @ x,
                        a_y = map (\<lambda>(c, t). c + t) (zip (rev (tl y_camber)) (rev (tl y_thick)))
                              @ map (\<lambda>(c, t). c - t) (zip y_camber y_thick)\<rparr>)))))"

section \<open>Bodies and their decorators\<close>

text \<open>
  Bodies are mutable objects that refer to each other, so they live in a heap: a list
  of objects, an object's address being its index. A \<open>Body\<close> (the root class of
  \<open>Circle\<close> and \<open>Airfoil\<close>) holds its \<open>_time\<close>. A \<open>TransformedBody\<close> holds \<open>_parent\<close>,
  \<open>_body\<close> and \<open>_transformation\<close>; its subclasses \<open>Pitching\<close> and \<open>Heaving\<close> add their
  amplitude (or displacement), frequency and phase, the phase already in radians.
\<close>

datatype motion =
    Plain
  | Pitching real real real
  | Heaving vec2 real real

datatype obj =
    Body real
  | TransformedBody nat nat EuclideanTransformation motion

type_synonym heap = "obj list"

text \<open>\<open>Body.__init__\<close>: a new body with time 0. The result is the heap and the new address.\<close>

definition Body_init :: "heap \<Rightarrow> heap \<times> nat" where
  "Body_init s = (s @ [Body 0], length s)"

text \<open>
  \<open>get_body\<close>: a \<open>Body\<close> returns itself, a \<open>TransformedBody\<close> its \<open>_body\<close>. \<open>None\<close> is
  a reference to no object.
\<close>

definition get_body :: "heap \<Rightarrow> nat \<Rightarrow> nat option" where
  "get_body s a =
     (if a < length s
      then (case s ! a of Body t \<Rightarrow> Some a | TransformedBody p b tr m \<Rightarrow> Some b)
      else None)"

text \<open>The constructors of \<open>TransformedBody\<close>, \<open>Pitching\<close> and \<open>Heaving\<close>.\<close>

definition TransformedBody_init :: "heap \<Rightarrow> nat \<Rightarrow> real \<Rightarrow> vec2 \<Rightarrow> (heap \<times> nat) option" where
  "TransformedBody_init s body ang disp =
     (case get_body s body of
        None \<Rightarrow> None
      | Some b \<Rightarrow>
          Some (s @ [TransformedBody body b (EuclideanTransformation_init ang disp) Plain],
                length s))"

definition Pitching_init :: "heap \<Rightarrow> nat \<Rightarrow> real \<Rightarrow> real \<Rightarrow> real \<Rightarrow> (heap \<times> nat) option" where
  "Pitching_init s body amplitude frequency phase =
     (case get_body s body of
        None \<Rightarrow> None
      | Some b \<Rightarrow>
          Some (s @ [TransformedBody body b (EuclideanTransformation_init 0 (0, 0))
                       (Pitching amplitude frequency (phase * pi / 180))],
                length s))"

definition Heaving_init :: "heap \<Rightarrow> nat \<Rightarrow> vec2 \<Rightarrow> real \<Rightarrow> real \<Rightarrow> (heap \<times> nat) option" where
  "Heaving_init s body disp frequency phase =
     (case get_body s body of
        None \<Rightarrow> None
      | Some b \<Rightarrow>
          Some (s @ [TransformedBody body b (EuclideanTransformation_init 0 (0, 0))
                       (Heaving disp frequency (phase * pi / 180))],
                length s))"

text \<open>
  The property \<open>time\<close>. On a \<open>Body\<close> it reads or writes \<open>_time\<close>; on a
  \<open>TransformedBody\<close> it is the property \<open>time\<close> of the object \<open>_body\<close>.
\<close>

partial_function (option) get_time :: "heap \<Rightarrow> nat \<Rightarrow> real option" where
  "get_time s a =
     (if a < length s
      then (case s ! a of Body t \<Rightarrow> Some t | TransformedBody p b tr m \<Rightarrow> get_time s b)
      else None)"

partial_function (option) set_time :: "heap \<Rightarrow> nat \<Rightarrow> real \<Rightarrow> heap option" where
  "set_time s a v =
     (if a < length s
      then (case s ! a of
              Body t \<Rightarrow> Some (s[a := Body v])
            | TransformedBody p b tr m \<Rightarrow> set_time s b v)
      else None)"

text \<open>The setters of \<open>angle\<close> and \<open>displacement\<close> of a decorator, and the getter of \<open>angle\<close>.\<close>

definition set_angle_of :: "heap \<Rightarrow> nat \<Rightarrow> real \<Rightarrow> heap option" where
  "set_angle_of s a v =
     (if a < length s
      then (case s ! a of
              Body t \<Rightarrow> None
            | TransformedBody p b tr m \<Rightarrow> Some (s[a := TransformedBody p b (set_angle tr v) m]))
      else None)"

definition set_displacement_of :: "heap \<Rightarrow> nat \<Rightarrow> vec2 \<Rightarrow> heap option" where
  "set_displacement_of s a v =
     (if a < length s
      then (case s ! a of
              Body t \<Rightarrow> None
            | TransformedBody p b tr m \<Rightarrow>
                Some (s[a := TransformedBody p b (set_displacement tr v) m]))
      else None)"


text \<open>
  \<open>get_transformation\<close>. A \<open>Body\<close> returns \<open>None\<close>. A \<open>Pitching\<close> or \<open>Heaving\<close> first
  sets its own angle or displacement from the shared time; every \<open>TransformedBody\<close>
  then composes its transformation with the one its parent returns. The call may
  change the heap, so the heap is returned with the result.
\<close>

definition update_motion :: "heap \<Rightarrow> nat \<Rightarrow> heap option" where
  "update_motion s a =
     (if a < length s
      then (case s ! a of
              Body t \<Rightarrow> Some s
            | TransformedBody p b tr m \<Rightarrow>
                (case m of
                   Plain \<Rightarrow> Some s
                 | Pitching amplitude frequency phase \<Rightarrow>
                     (case get_time s a of
                        None \<Rightarrow> None
                      | Some t \<Rightarrow> set_angle_of s a (amplitude * sin (frequency * t + phase)))
                 | Heaving disp frequency phase \<Rightarrow>
                     (case get_time s a of
                        None \<Rightarrow> None
                      | Some t \<Rightarrow>
                          set_displacement_of s a (vscale disp (sin (frequency * t + phase))))))
      else None)"

partial_function (option) get_transformation ::
    "heap \<Rightarrow> nat \<Rightarrow> (heap \<times> EuclideanTransformation option) option" where
  "get_transformation s a =
     (if a < length s
      then (case s ! a of
              Body t \<Rightarrow> Some (s, None)
            | TransformedBody p b tr m \<Rightarrow>
                (case update_motion s a of
                   None \<Rightarrow> None
                 | Some s1 \<Rightarrow>
                     Option.bind (get_transformation s1 p)
                       (\<lambda>(s2, pt).
                          if a < length s2
                          then (case s2 ! a of
                                  Body t \<Rightarrow> None
                                | TransformedBody p' b' tr' m' \<Rightarrow> Some (s2, Some (compose tr' pt)))
                          else None)))
      else None)"

text \<open>A driver that writes the time several times, each time through some object.\<close>

fun set_times :: "heap \<Rightarrow> (nat \<times> real) list \<Rightarrow> heap option" where
  "set_times s [] = Some s"
| "set_times s ((a, v) # ws) = Option.bind (set_time s a v) (\<lambda>s'. set_times s' ws)"

text \<open>
  The heaps a program can reach: from the empty heap by the constructors and the
  methods above.
\<close>

inductive built :: "heap \<Rightarrow> bool" where
  built_empty: "built []"
| built_Body: "built s \<Longrightarrow> built (fst (Body_init s))"
| built_TransformedBody:
    "built s \<Longrightarrow> TransformedBody_init s body ang disp = Some (s', a) \<Longrightarrow> built s'"
| built_Pitching:
    "built s \<Longrightarrow> Pitching_init s body amplitude frequency phase = Some (s', a) \<Longrightarrow> built s'"
| built_Heaving:
    "built s \<Longrightarrow> Heaving_init s body d frequency phase = Some (s', a) \<Longrightarrow> built s'"
| built_set_time: "built s \<Longrightarrow> set_time s a v = Some s' \<Longrightarrow> built s'"
| built_set_angle: "built s \<Longrightarrow> set_angle_of s a v = Some s' \<Longrightarrow> built s'"
| built_set_displacement: "built s \<Longrightarrow> set_displacement_of s a d = Some s' \<Longrightarrow> built s'"
| built_get_transformation: "built s \<Longrightarrow> get_transformation s a = Some (s', T) \<Longrightarrow> built s'"

text \<open>
  \<open>in_chain s r a\<close>: the object \<open>a\<close> is the root body \<open>r\<close> or a decorator whose \<open>_parent\<close>
  links lead to \<open>r\<close>.
\<close>

inductive in_chain :: "heap \<Rightarrow> nat \<Rightarrow> nat \<Rightarrow> bool" where
  chain_root: "r < length s \<Longrightarrow> s ! r = Body t \<Longrightarrow> in_chain s r r"
| chain_decorator:
    "in_chain s r p \<Longrightarrow> a < length s \<Longrightarrow> s ! a = TransformedBody p b tr m \<Longrightarrow> in_chain s r a"

text \<open>
  The invariant of the reachable heaps: a decorator was built after its parent, and its
  \<open>_body\<close> is what \<open>get_body\<close> of the parent returns.
\<close>

definition well_formed :: "heap \<Rightarrow> bool" where
  "well_formed s \<longleftrightarrow>
     (\<forall>a < length s.
        case s ! a of
          Body t \<Rightarrow> True
        | TransformedBody p b tr m \<Rightarrow> p < a \<and> get_body s p = Some b)"

text \<open>An object without its transformation: what the methods never change but the time.\<close>

fun skel :: "obj \<Rightarrow> obj" where
  "skel (Body t) = Body t"
| "skel (TransformedBody p b tr m) =
     TransformedBody p b (EuclideanTransformation_init 0 (0, 0)) m"

text \<open>
  An example: a \<open>Body\<close> at address 0, a \<open>Pitching\<close> of it (amplitude 3, frequency 2,
  phase 0) at address 1 and a \<open>Heaving\<close> of that at address 2.
\<close>

definition example_heap :: heap where
  "example_heap =
     [Body 0,
      TransformedBody 0 0 (EuclideanTransformation_init 0 (0, 0)) (Pitching 3 2 (0 * pi / 180)),
      TransformedBody 1 0 (EuclideanTransformation_init 0 (0, 0)) (Heaving (0, 1) 1 (0 * pi / 180))]"

section \<open>Properties of transformations\<close>

lemma init_fields:
  "angle (EuclideanTransformation_init a d) = a"
  "Rm (EuclideanTransformation_init a d) = rotation a"
  "displacement (EuclideanTransformation_init a d) = d"
  by (simp_all add: EuclideanTransformation_init_def set_angle_def set_displacement_def
      rotation_def Let_def)

text \<open>
  C2. For every outer transformation \<open>A\<close> and inner transformation \<open>B\<close>, \<open>compose\<close>
  returns a transformation whose angle is the sum of the two angles and whose
  displacement is the rotation matrix of \<open>A\<close> applied to the displacement of \<open>B\<close> plus
  the displacement of \<open>A\<close> (its own matrix is the one derived from the summed angle);
  with \<open>None\<close> as inner argument it returns \<open>A\<close> itself.
\<close>

theorem compose_spec:
  "angle (compose A (Some B)) = angle A + angle B
   \<and> displacement (compose A (Some B)) = vadd (dot (Rm A) (displacement B)) (displacement A)
   \<and> Rm (compose A (Some B)) = rotation (angle A + angle B)
   \<and> compose A None = A"
  by (simp add: compose_def init_fields)

lemma rot_rot_transpose:
  fixes c s x y :: real
  assumes "s * s + c * c = 1"
  shows "c * - (c * x + - s * y) + s * - (s * x + c * y) + x = 0"
    and "- s * - (c * x + - s * y) + c * - (s * x + c * y) + y = 0"
proof -
  have "c * - (c * x + - s * y) + s * - (s * x + c * y) + x = x - (s * s + c * c) * x"
    by (simp add: algebra_simps)
  then show "c * - (c * x + - s * y) + s * - (s * x + c * y) + x = 0"
    using assms by simp
  have "- s * - (c * x + - s * y) + c * - (s * x + c * y) + y = y - (s * s + c * c) * y"
    by (simp add: algebra_simps)
  then show "- s * - (c * x + - s * y) + c * - (s * x + c * y) + y = 0"
    using assms by simp
qed

text \<open>
  C3. Over the reals, composing a transformation built from an angle and a displacement
  with its own inverse gives angle 0 and displacement (0, 0).
\<close>

theorem compose_inverse_identity:
  "angle (compose (EuclideanTransformation_init th d)
            (Some (inverse_xf (EuclideanTransformation_init th d)))) = 0
   \<and> displacement (compose (EuclideanTransformation_init th d)
            (Some (inverse_xf (EuclideanTransformation_init th d)))) = (0, 0)"
proof -
  obtain x y where d: "d = (x, y)" by (cases d)
  let ?c = "cos (th * pi / 180)" and ?s = "sin (th * pi / 180)"
  have sc: "?s * ?s + ?c * ?c = 1"
    using sin_cos_squared_add [of "th * pi / 180"] by (simp add: power2_eq_square)
  have "vadd (dot (rotation th) (vneg (dot (transpose_mat (rotation th)) (x, y)))) (x, y)
          = (?c * - (?c * x + - ?s * y) + ?s * - (?s * x + ?c * y) + x,
             - ?s * - (?c * x + - ?s * y) + ?c * - (?s * x + ?c * y) + y)"
    unfolding rotation_def by (simp only: dot.simps vneg.simps vadd.simps transpose_mat.simps)
  then have "vadd (dot (rotation th) (vneg (dot (transpose_mat (rotation th)) (x, y)))) (x, y) = (0, 0)"
    by (simp only: rot_rot_transpose [OF sc])
  then show ?thesis
    by (simp add: compose_def inverse_xf_def init_fields d)
qed

section \<open>Properties of the panel discretizer\<close>

lemma length_np_diff [simp]: "length (np_diff xs) = length xs - 1"
  by (simp add: np_diff_def)

lemma nth_np_diff: "Suc i < length xs \<Longrightarrow> np_diff xs ! i = xs ! Suc i - xs ! i"
  by (simp add: np_diff_def nth_tl)

lemma nth_take_drop:
  assumes "length A = length B" and "i < length A"
  shows "(take h A @ drop h B) ! i = (if i < h then A ! i else B ! i)"
  using assms by (auto simp add: nth_append min_def)

lemma nth_frac:
  assumes "Suc i < length xs"
  shows "map (\<lambda>(a, d). a + f * d) (zip (butlast xs) (np_diff xs)) ! i
           = xs ! i + f * (xs ! Suc i - xs ! i)"
  using assms by (simp add: nth_np_diff nth_butlast)

lemma init_Inr:
  assumes "length x = length y"
  shows "BoundVortexPanels_init x y =
     Inr \<lparr>numpanels = length x - 1,
          normals =
            (map (\<lambda>(a, b). np_divide a b)
               (zip (np_diff y) (map (\<lambda>(dx, dy). sqrt (dx * dx + dy * dy)) (zip (np_diff x) (np_diff y)))),
             map (\<lambda>(a, b). np_divide a b)
               (zip (map uminus (np_diff x)) (map (\<lambda>(dx, dy). sqrt (dx * dx + dy * dy)) (zip (np_diff x) (np_diff y))))),
          xvort =
            (take ((length x - 1) div 2) (map (\<lambda>(a, d). a + 0.75 * d) (zip (butlast x) (np_diff x)))
               @ drop ((length x - 1) div 2) (map (\<lambda>(a, d). a + 0.25 * d) (zip (butlast x) (np_diff x))),
             take ((length x - 1) div 2) (map (\<lambda>(a, d). a + 0.75 * d) (zip (butlast y) (np_diff y)))
               @ drop ((length x - 1) div 2) (map (\<lambda>(a, d). a + 0.25 * d) (zip (butlast y) (np_diff y)))),
          xcoll =
            (take ((length x - 1) div 2) (map (\<lambda>(a, d). a + 0.25 * d) (zip (butlast x) (np_diff x)))
               @ drop ((length x - 1) div 2) (map (\<lambda>(a, d). a + 0.75 * d) (zip (butlast x) (np_diff x))),
             take ((length x - 1) div 2) (map (\<lambda>(a, d). a + 0.25 * d) (zip (butlast y) (np_diff y)))
               @ drop ((length x - 1) div 2) (map (\<lambda>(a, d). a + 0.75 * d) (zip (butlast y) (np_diff y)))),
          gam = replicate (length x - 1) 0\<rparr>"
  using assms by (simp add: BoundVortexPanels_init_def np_vstack_def Let_def)

lemma nth_split_frac:
  assumes "Suc i < length xs"
  shows "(take h (map (\<lambda>(a, d). a + f * d) (zip (butlast xs) (np_diff xs)))
            @ drop h (map (\<lambda>(a, d). a + g * d) (zip (butlast xs) (np_diff xs)))) ! i
         = xs ! i + (if i < h then f else g) * (xs ! Suc i - xs ! i)"
proof -
  let ?A = "map (\<lambda>(a, d). a + f * d) (zip (butlast xs) (np_diff xs))"
  let ?B = "map (\<lambda>(a, d). a + g * d) (zip (butlast xs) (np_diff xs))"
  have len: "length ?A = length ?B" by simp
  have i: "i < length ?A" using assms by simp
  have "(take h ?A @ drop h ?B) ! i = (if i < h then ?A ! i else ?B ! i)"
    by (rule nth_take_drop [OF len i])
  also have "\<dots> = xs ! i + (if i < h then f else g) * (xs ! Suc i - xs ! i)"
    using nth_frac [OF assms, of f] nth_frac [OF assms, of g] by simp
  finally show ?thesis .
qed

lemma vortex_pt_init:
  assumes "BoundVortexPanels_init x y = Inr P" and "length x = length y" and "Suc i < length x"
  shows "vortex_pt P i = (if i < numpanels P div 2 then edge_point x y i 0.75 else edge_point x y i 0.25)"
proof -
  have P: "Inr P = BoundVortexPanels_init x y" using assms(1) by simp
  have i: "Suc i < length y" using assms by simp
  have n: "numpanels P = length x - 1"
    and v: "xvort P =
            (take ((length x - 1) div 2) (map (\<lambda>(a, d). a + 0.75 * d) (zip (butlast x) (np_diff x)))
               @ drop ((length x - 1) div 2) (map (\<lambda>(a, d). a + 0.25 * d) (zip (butlast x) (np_diff x))),
             take ((length x - 1) div 2) (map (\<lambda>(a, d). a + 0.75 * d) (zip (butlast y) (np_diff y)))
               @ drop ((length x - 1) div 2) (map (\<lambda>(a, d). a + 0.25 * d) (zip (butlast y) (np_diff y))))"
    using P [unfolded init_Inr [OF assms(2)]] by simp_all
  show ?thesis
    unfolding vortex_pt_def edge_point_def v n fst_conv snd_conv
      nth_split_frac [OF assms(3)] nth_split_frac [OF i]
    by simp
qed

lemma collocation_pt_init:
  assumes "BoundVortexPanels_init x y = Inr P" and "length x = length y" and "Suc i < length x"
  shows "collocation_pt P i = (if i < numpanels P div 2 then edge_point x y i 0.25 else edge_point x y i 0.75)"
proof -
  have P: "Inr P = BoundVortexPanels_init x y" using assms(1) by simp
  have i: "Suc i < length y" using assms by simp
  have n: "numpanels P = length x - 1"
    and v: "xcoll P =
            (take ((length x - 1) div 2) (map (\<lambda>(a, d). a + 0.25 * d) (zip (butlast x) (np_diff x)))
               @ drop ((length x - 1) div 2) (map (\<lambda>(a, d). a + 0.75 * d) (zip (butlast x) (np_diff x))),
             take ((length x - 1) div 2) (map (\<lambda>(a, d). a + 0.25 * d) (zip (butlast y) (np_diff y)))
               @ drop ((length x - 1) div 2) (map (\<lambda>(a, d). a + 0.75 * d) (zip (butlast y) (np_diff y))))"
    using P [unfolded init_Inr [OF assms(2)]] by simp_all
  show ?thesis
    unfolding collocation_pt_def edge_point_def v n fst_conv snd_conv
      nth_split_frac [OF assms(3)] nth_split_frac [OF i]
    by simp
qed

lemma normal_at_init:
  assumes "BoundVortexPanels_init x y = Inr P" and "length x = length y" and "Suc i < length x"
  shows "normal_at P i =
     (np_divide (y ! Suc i - y ! i)
        (sqrt ((x ! Suc i - x ! i) * (x ! Suc i - x ! i) + (y ! Suc i - y ! i) * (y ! Suc i - y ! i))),
      np_divide (- (x ! Suc i - x ! i))
        (sqrt ((x ! Suc i - x ! i) * (x ! Suc i - x ! i) + (y ! Suc i - y ! i) * (y ! Suc i - y ! i))))"
proof -
  have P: "Inr P = BoundVortexPanels_init x y" using assms(1) by simp
  have i: "Suc i < length y" using assms by simp
  have v: "normals P =
            (map (\<lambda>(a, b). np_divide a b)
               (zip (np_diff y) (map (\<lambda>(dx, dy). sqrt (dx * dx + dy * dy)) (zip (np_diff x) (np_diff y)))),
             map (\<lambda>(a, b). np_divide a b)
               (zip (map uminus (np_diff x)) (map (\<lambda>(dx, dy). sqrt (dx * dx + dy * dy)) (zip (np_diff x) (np_diff y)))))"
    using P [unfolded init_Inr [OF assms(2)]] by simp
  have ix: "i < length x - 1" "i < length y - 1" using assms(3) i by simp_all
  show ?thesis
    unfolding normal_at_def v fst_conv snd_conv
    using ix by (simp add: nth_np_diff [OF assms(3)] nth_np_diff [OF i])
qed


lemma init_lengths:
  assumes "BoundVortexPanels_init x y = Inr P"
  shows "length x = length y" and "numpanels P = length x - 1"
proof -
  show l: "length x = length y"
    using assms by (simp add: BoundVortexPanels_init_def np_vstack_def split: if_splits)
  show "numpanels P = length x - 1"
    using assms [unfolded init_Inr [OF l]] by auto
qed

text \<open>
  C1. For every pair of coordinate arrays for which construction returns a
  panel set, a panel with index below \<open>numpanels div 2\<close> has its vortex point at 3/4 of
  its edge from the edge's start point and its collocation point at 1/4, and a panel with
  index at or above \<open>numpanels div 2\<close> has its vortex point at 1/4 and its collocation
  point at 3/4.
\<close>

theorem panel_point_placement:
  assumes "BoundVortexPanels_init x y = Inr P" and "i < numpanels P"
  shows "(i < numpanels P div 2 \<longrightarrow>
            vortex_pt P i = edge_point x y i (3/4) \<and> collocation_pt P i = edge_point x y i (1/4))
       \<and> (numpanels P div 2 \<le> i \<longrightarrow>
            vortex_pt P i = edge_point x y i (1/4) \<and> collocation_pt P i = edge_point x y i (3/4))"
proof -
  have l: "length x = length y" and n: "numpanels P = length x - 1"
    using init_lengths [OF assms(1)] by simp_all
  have i: "Suc i < length x" using assms(2) n by simp
  show ?thesis
    using vortex_pt_init [OF assms(1) l i] collocation_pt_init [OF assms(1) l i]
    by (simp add: not_less [symmetric])
qed

theorem panel_point_placement_witness:
  "BoundVortexPanels_init [0, 1, 2] [0, 0, 0]
     = Inr \<lparr>numpanels = 2, normals = ([Fin 0, Fin 0], [Fin (- 1), Fin (- 1)]),
            xvort = ([3 / 4, 5 / 4], [0, 0]), xcoll = ([1 / 4, 7 / 4], [0, 0]), gam = [0, 0]\<rparr>
   \<and> vortex_pt \<lparr>numpanels = 2, normals = ([Fin 0, Fin 0], [Fin (- 1), Fin (- 1)]),
            xvort = ([3 / 4, 5 / 4], [0, 0]), xcoll = ([1 / 4, 7 / 4], [0, 0]), gam = [0, 0]\<rparr> 0
       = edge_point [0, 1, 2] [0, 0, 0] 0 (3/4)
   \<and> vortex_pt \<lparr>numpanels = 2, normals = ([Fin 0, Fin 0], [Fin (- 1), Fin (- 1)]),
            xvort = ([3 / 4, 5 / 4], [0, 0]), xcoll = ([1 / 4, 7 / 4], [0, 0]), gam = [0, 0]\<rparr> 1
       = edge_point [0, 1, 2] [0, 0, 0] 1 (1/4)"
proof -
  let ?P = "\<lparr>numpanels = 2, normals = ([Fin 0, Fin 0], [Fin (- 1), Fin (- 1)]),
            xvort = ([3 / 4, 5 / 4], [0, 0]), xcoll = ([1 / 4, 7 / 4], [0, 0]), gam = [0, 0 :: real]\<rparr>"
  have h: "BoundVortexPanels_init [0, 1, 2] [0, 0, 0] = Inr ?P"
    by (simp add: BoundVortexPanels_init_def np_vstack_def np_diff_def np_divide_def Let_def)
  have i0: "(0::nat) < numpanels ?P" and i1: "(1::nat) < numpanels ?P" by simp_all
  show ?thesis
    using h panel_point_placement [OF h i0] panel_point_placement [OF h i1] by simp
qed

theorem front_half_quarter_counterexample:
  "BoundVortexPanels_init [0, 1, 2] [0, 0, 0]
     = Inr \<lparr>numpanels = 2, normals = ([Fin 0, Fin 0], [Fin (- 1), Fin (- 1)]),
            xvort = ([3 / 4, 5 / 4], [0, 0]), xcoll = ([1 / 4, 7 / 4], [0, 0]), gam = [0, 0]\<rparr>
   \<and> (0::nat) < 2 div 2
   \<and> vortex_pt \<lparr>numpanels = 2, normals = ([Fin 0, Fin 0], [Fin (- 1), Fin (- 1)]),
            xvort = ([3 / 4, 5 / 4], [0, 0]), xcoll = ([1 / 4, 7 / 4], [0, 0]), gam = [0, 0]\<rparr> 0
       \<noteq> edge_point [0, 1, 2] [0, 0, 0] 0 (1/4)
   \<and> collocation_pt \<lparr>numpanels = 2, normals = ([Fin 0, Fin 0], [Fin (- 1), Fin (- 1)]),
            xvort = ([3 / 4, 5 / 4], [0, 0]), xcoll = ([1 / 4, 7 / 4], [0, 0]), gam = [0, 0]\<rparr> 0
       \<noteq> edge_point [0, 1, 2] [0, 0, 0] 0 (3/4)"
  by (simp add: BoundVortexPanels_init_def np_vstack_def np_diff_def np_divide_def Let_def
      vortex_pt_def collocation_pt_def edge_point_def)

text \<open>
  C5. Construction raises no error for any number of boundary points:
  whenever the two coordinate arrays have the same length \<open>N\<close> it returns a panel set
  with \<open>N - 1\<close> panels (none when \<open>N < 2\<close>), one strength per panel.
\<close>

theorem init_succeeds:
  assumes "length x = length y"
  shows "\<exists>P. BoundVortexPanels_init x y = Inr P \<and> numpanels P = length x - 1
             \<and> gam P = replicate (length x - 1) 0"
  unfolding init_Inr [OF assms] by simp

theorem init_succeeds_witness:
  "length [5::real] = length [0::real]
   \<and> (\<exists>P. BoundVortexPanels_init [5] [0] = Inr P \<and> numpanels P = 0 \<and> gam P = [])"
proof -
  have h: "length [5::real] = length [0::real]" by simp
  show ?thesis using h init_succeeds [OF h] by simp
qed

theorem one_point_counterexample:
  "\<not> isl (BoundVortexPanels_init [5] [0])
   \<and> BoundVortexPanels_init [5] [0]
       = Inr \<lparr>numpanels = 0, normals = ([], []), xvort = ([], []), xcoll = ([], []), gam = []\<rparr>"
  by (simp add: BoundVortexPanels_init_def np_vstack_def np_diff_def Let_def)

text \<open>
  C6. A degenerate panel is not rejected. For coordinate arrays of the same length in
  which the boundary points \<open>i\<close> and \<open>i + 1\<close> are identical, construction signals no
  error: it returns a panel set, and both components of the normal of panel \<open>i\<close> are
  NaN.
\<close>

theorem degenerate_panel_normal:
  assumes "length x = length y" and "Suc i < length x"
    and "x ! Suc i = x ! i" and "y ! Suc i = y ! i"
  shows "\<exists>P. BoundVortexPanels_init x y = Inr P \<and> normal_at P i = (NaN, NaN)"
proof -
  obtain P where P: "BoundVortexPanels_init x y = Inr P"
    using init_Inr [OF assms(1)] by simp
  have "normal_at P i = (NaN, NaN)"
    unfolding normal_at_init [OF P assms(1,2)] np_divide_def using assms(3,4) by simp
  then show ?thesis using P by simp
qed

theorem degenerate_panel_normal_witness:
  "length [0, 0 :: real] = length [1, 1 :: real] \<and> Suc 0 < length [0, 0 :: real]
   \<and> [0, 0 :: real] ! Suc 0 = [0, 0] ! 0 \<and> [1, 1 :: real] ! Suc 0 = [1, 1] ! 0
   \<and> (\<exists>P. BoundVortexPanels_init [0, 0] [1, 1] = Inr P \<and> normal_at P 0 = (NaN, NaN))"
proof -
  have h1: "length [0, 0 :: real] = length [1, 1 :: real]" by simp
  have h2: "Suc 0 < length [0, 0 :: real]" by simp
  have h3: "[0, 0 :: real] ! Suc 0 = [0, 0] ! 0" by simp
  have h4: "[1, 1 :: real] ! Suc 0 = [1, 1] ! 0" by simp
  show ?thesis using h1 h2 h3 h4 degenerate_panel_normal [OF h1 h2 h3 h4] by simp
qed

theorem degenerate_panel_counterexample:
  "\<not> isl (BoundVortexPanels_init [0, 0] [1, 1])
   \<and> BoundVortexPanels_init [0, 0] [1, 1]
       = Inr \<lparr>numpanels = 1, normals = ([NaN], [NaN]), xvort = ([0], [1]), xcoll = ([0], [1]),
              gam = [0]\<rparr>"
  by (simp add: BoundVortexPanels_init_def np_vstack_def np_diff_def np_divide_def Let_def)

section \<open>Properties of the airfoil\<close>

lemma digit_cases:
  assumes "d < (10::nat)"
  shows "d = 0 \<or> d = 1 \<or> d = 2 \<or> d = 3 \<or> d = 4 \<or> d = 5 \<or> d = 6 \<or> d = 7 \<or> d = 8 \<or> d = 9"
  using assms by arith

lemma digit_char_props:
  assumes "d < 10"
  shows "is_digit (digit_char d)" and "digit_val (digit_char d) = int d"
  using digit_cases [OF assms] by (auto simp add: digit_char_def is_digit_def digit_val_def)

lemma dec_digits_1: "n < 10 \<Longrightarrow> dec_digits n = [digit_char n]"
  by (simp add: dec_digits.simps)

lemma dec_digits_2:
  assumes "10 \<le> n" and "n < 100"
  shows "dec_digits n = [digit_char (n div 10), digit_char (n mod 10)]"
proof -
  have "n div 10 < 10" using assms by simp
  then show ?thesis
    using assms by (subst dec_digits.simps) (simp add: dec_digits_1)
qed

lemma dec_digits_3:
  assumes "100 \<le> n" and "n < 1000"
  shows "dec_digits n = [digit_char (n div 100), digit_char (n div 10 mod 10), digit_char (n mod 10)]"
proof -
  have "10 \<le> n div 10" "n div 10 < 100" using assms by simp_all
  then show ?thesis
    using assms by (subst dec_digits.simps) (simp add: dec_digits_2 div_mult2_eq [symmetric])
qed

lemma dec_digits_4:
  assumes "1000 \<le> n" and "n < 10000"
  shows "dec_digits n = [digit_char (n div 1000), digit_char (n div 100 mod 10),
                         digit_char (n div 10 mod 10), digit_char (n mod 10)]"
proof -
  have "100 \<le> n div 10" "n div 10 < 1000" using assms by simp_all
  then show ?thesis
    using assms by (subst dec_digits.simps) (simp add: dec_digits_3 div_mult2_eq [symmetric])
qed

lemma length_dec_digits_pos: "0 < length (dec_digits n)"
  by (subst dec_digits.simps) simp

lemma length_dec_digits_ge:
  assumes "10000 \<le> n"
  shows "5 \<le> length (dec_digits n)"
proof -
  have a: "\<And>m. 10 \<le> m \<Longrightarrow> length (dec_digits m) = Suc (length (dec_digits (m div 10)))"
    by (subst dec_digits.simps) simp
  have "10 \<le> n" "10 \<le> n div 10" "10 \<le> n div 10 div 10" "10 \<le> n div 10 div 10 div 10"
    using assms by simp_all
  then have "length (dec_digits n) = 4 + length (dec_digits (n div 10 div 10 div 10 div 10))"
    by (simp add: a)
  moreover have "0 < length (dec_digits (n div 10 div 10 div 10 div 10))"
    by (rule length_dec_digits_pos)
  ultimately show ?thesis by linarith
qed

lemma format_04d_digits:
  assumes "0 \<le> n" and "n < 10000"
  shows "format_04d n = [digit_char (nat n div 1000), digit_char (nat n div 100 mod 10),
                          digit_char (nat n div 10 mod 10), digit_char (nat n mod 10)]"
proof -
  define k where "k = nat n"
  have k: "k < 10000" using assms by (simp add: k_def)
  have z: "digit_char 0 = CHR ''0''" by (simp add: digit_char_def)
  consider "k < 10" | "10 \<le> k" "k < 100" | "100 \<le> k" "k < 1000" | "1000 \<le> k" "k < 10000"
    using k by linarith
  then have "replicate (4 - length (dec_digits k)) CHR ''0'' @ dec_digits k
      = [digit_char (k div 1000), digit_char (k div 100 mod 10), digit_char (k div 10 mod 10),
         digit_char (k mod 10)]"
  proof cases
    case 1
    then show ?thesis by (simp add: dec_digits_1 z numeral_3_eq_3)
  next
    case 2
    then show ?thesis by (simp add: dec_digits_2 z numeral_2_eq_2)
  next
    case 3
    then show ?thesis by (simp add: dec_digits_3 z)
  next
    case 4
    then show ?thesis by (simp add: dec_digits_4)
  qed
  then show ?thesis using assms by (simp add: format_04d_def k_def)
qed

lemma py_int_1: "d < 10 \<Longrightarrow> py_int [digit_char d] = Inr (int d)"
  by (simp add: py_int_def digit_char_props)

lemma py_int_2: "a < 10 \<Longrightarrow> b < 10 \<Longrightarrow> py_int [digit_char a, digit_char b] = Inr (10 * int a + int b)"
  by (simp add: py_int_def digit_char_props)

lemma two_digits_nat: "10 * ((k::nat) div 10 mod 10) + k mod 10 = k mod 100"
  using mod_mult2_eq [of k 10 10] by simp

lemma two_digits_int: "10 * int (k div 10 mod 10) + int (k mod 10) = int (k mod 100)"
proof -
  have "int (10 * (k div 10 mod 10) + k mod 10) = int (k mod 100)"
    by (simp only: two_digits_nat)
  then show ?thesis by simp
qed

lemma Airfoil_init_valid:
  assumes "0 \<le> code" and "code < 10000"
  shows "Airfoil_init code num_points zero_thick_te uniform =
     Inr \<lparr>a_x = rev (tl (stations uniform num_points)) @ stations uniform num_points,
          a_y = map (\<lambda>(c, t). c + t)
                  (zip (rev (tl (map (camber_at (0.01 * real_of_int (code div 1000))
                                       (0.1 * real_of_int (code div 100 mod 10)))
                                   (stations uniform num_points))))
                       (rev (tl (map (thick_at (0.01 * real_of_int (code mod 100)) zero_thick_te)
                                   (stations uniform num_points)))))
                @ map (\<lambda>(c, t). c - t)
                  (zip (map (camber_at (0.01 * real_of_int (code div 1000))
                               (0.1 * real_of_int (code div 100 mod 10)))
                          (stations uniform num_points))
                       (map (thick_at (0.01 * real_of_int (code mod 100)) zero_thick_te)
                          (stations uniform num_points)))\<rparr>"
proof -
  define k where "k = nat code"
  have k: "k < 10000" and ck: "code = int k" using assms by (simp_all add: k_def)
  have f: "format_04d code = [digit_char (k div 1000), digit_char (k div 100 mod 10),
                          digit_char (k div 10 mod 10), digit_char (k mod 10)]"
    using format_04d_digits [OF assms] by (simp add: k_def)
  have "k div 1000 < 10" "k div 100 mod 10 < 10" "k div 10 mod 10 < 10" "k mod 10 < 10"
    using k by simp_all
  note lt = this
  have d0: "py_int [format_04d code ! 0] = Inr (code div 1000)"
    unfolding f using lt by (simp add: py_int_1 ck zdiv_int)
  have d1: "py_int [format_04d code ! 1] = Inr (code div 100 mod 10)"
    unfolding f using lt by (simp add: py_int_1 ck zdiv_int zmod_int)
  have "10 * int (k div 10 mod 10) + int (k mod 10) = int (k mod 100)"
    by (rule two_digits_int)
  then have d23: "py_int (drop 2 (format_04d code)) = Inr (code mod 100)"
    unfolding f using lt by (simp add: py_int_2 ck zmod_int)
  have len: "length (format_04d code) = 4" by (simp add: f)
  show ?thesis
    unfolding Airfoil_init_def Let_def d0 d1 d23 len by simp
qed

lemma length_linspace [simp]: "length (linspace a b n) = n"
  by (simp add: linspace_def)

lemma nth_linspace:
  assumes "i < n"
  shows "linspace a b n ! i = (if n = 1 then a else a + real i * ((b - a) / real (n - 1)))"
  using assms by (auto simp add: linspace_def)

lemma linspace_last:
  assumes "2 \<le> n"
  shows "linspace a b n ! (n - 1) = b"
proof -
  define r where "r = real (n - 1)"
  have r: "r \<noteq> 0" using assms by (simp add: r_def)
  have n: "n - 1 < n" "n \<noteq> 1" using assms by simp_all
  have "linspace a b n ! (n - 1) = a + r * ((b - a) / r)"
    unfolding r_def nth_linspace [OF n(1)] using n(2) by simp
  also have "\<dots> = b" using r by simp
  finally show ?thesis .
qed

lemma length_stations [simp]: "length (stations u n) = n"
  by (simp add: stations_def)

lemma nth_stations:
  assumes "i < n"
  shows "stations u n ! i =
           (if u then linspace 0 1 n ! i else 1 - cos (linspace 0 (0.5 * pi) n ! i))"
  using assms by (simp add: stations_def)

lemma stations_first:
  assumes "0 < n"
  shows "stations u n ! 0 = 0"
  using assms by (simp add: nth_stations nth_linspace)

lemma stations_last:
  assumes "2 \<le> n"
  shows "stations u n ! (n - 1) = 1"
proof -
  have n: "n - 1 < n" using assms by simp
  show ?thesis
    unfolding nth_stations [OF n] linspace_last [OF assms] by simp
qed

lemma stations_zero_iff:
  assumes "i < n"
  shows "stations u n ! i = 0 \<longleftrightarrow> i = 0"
proof (cases "i = 0")
  case True
  then show ?thesis using assms stations_first [of n u] by simp
next
  case False
  then have n: "n \<noteq> 1" "0 < real i" "0 < real (n - 1)" "real i \<le> real (n - 1)"
    using assms by simp_all
  have u: "linspace 0 1 n ! i \<noteq> 0"
    using n assms by (simp add: nth_linspace)
  let ?th = "linspace 0 (0.5 * pi) n ! i"
  have th: "?th = real i * (pi / 2 / real (n - 1))"
    using n assms by (simp add: nth_linspace)
  have pos: "0 < ?th" unfolding th using n by simp
  have "real i * (pi / 2 / real (n - 1)) = (real i / real (n - 1)) * (pi / 2)" by simp
  moreover have "real i / real (n - 1) \<le> 1" using n by simp
  ultimately have "?th \<le> 1 * (pi / 2)"
    unfolding th using mult_right_mono [of "real i / real (n - 1)" 1 "pi / 2"] by simp
  then have le: "?th \<le> pi" using pi_gt_zero by linarith
  have "cos ?th < cos 0"
    by (rule cos_monotone_0_pi) (use pos le in simp_all)
  then have "1 - cos ?th \<noteq> 0" by simp
  then show ?thesis
    using False u assms by (simp add: nth_stations)
qed

lemma nth_rev_tl_append_front:
  assumes "Suc i < length xs"
  shows "(rev (tl xs) @ xs) ! i = xs ! (length xs - 1 - i)"
proof -
  have "i < length (tl xs)" using assms by simp
  then have "(rev (tl xs) @ xs) ! i = rev (tl xs) ! i"
    by (simp add: nth_append)
  also have "\<dots> = tl xs ! (length (tl xs) - Suc i)"
    using \<open>i < length (tl xs)\<close> by (rule rev_nth)
  also have "\<dots> = xs ! Suc (length (tl xs) - Suc i)"
    using assms by (simp add: nth_tl)
  also have "Suc (length (tl xs) - Suc i) = length xs - 1 - i"
    using assms by simp
  finally show ?thesis .
qed

lemma nth_rev_tl_append_back:
  "(rev (tl xs) @ ys) ! (length xs - 1 + i) = ys ! i"
proof -
  have l: "length (rev (tl xs)) = length xs - 1" by simp
  have "(rev (tl xs) @ ys) ! (length (rev (tl xs)) + i) = ys ! i" by (rule nth_append_length_plus)
  then show ?thesis unfolding l .
qed


lemma nth_surface_front:
  assumes "Suc i < length cs" and "length ts = length cs"
  shows "(map (\<lambda>(c, t). c + t) (zip (rev (tl cs)) (rev (tl ts))) @ zs) ! i
           = cs ! (length cs - 1 - i) + ts ! (length cs - 1 - i)"
proof -
  have i: "i < length (tl cs)" "i < length (tl ts)" using assms by simp_all
  have c: "rev (tl cs) ! i = cs ! (length cs - 1 - i)"
    using nth_rev_tl_append_front [OF assms(1)] i by (simp add: nth_append)
  have "Suc i < length ts" using assms by simp
  then have t: "rev (tl ts) ! i = ts ! (length cs - 1 - i)"
    using nth_rev_tl_append_front [of i ts] i assms(2) by (simp add: nth_append)
  show ?thesis using i c t by (simp add: nth_append)
qed

lemma nth_surface_back:
  assumes "i < length cs" and "length ts = length cs"
  shows "(map (\<lambda>(c, t). c + t) (zip (rev (tl cs)) (rev (tl ts)))
            @ map (\<lambda>(c, t). c - t) (zip cs ts)) ! (length cs - 1 + i)
           = cs ! i - ts ! i"
proof -
  let ?F = "map (\<lambda>(c, t). c + t) (zip (rev (tl cs)) (rev (tl ts)))"
  let ?B = "map (\<lambda>(c, t). c - t) (zip cs ts)"
  have l: "length ?F = length cs - 1" using assms by simp
  have "(?F @ ?B) ! (length ?F + i) = ?B ! i" by (rule nth_append_length_plus)
  also have "?B ! i = cs ! i - ts ! i" using assms by simp
  finally show ?thesis unfolding l .
qed

text \<open>
  C7. For every code from 0 to 9999 and every number \<open>N\<close> of chordwise
  stations, construction returns a boundary of \<open>2 N - 1\<close> points: the points with index
  \<open>i < N - 1\<close> are the upper surface (camber plus thickness) at the stations \<open>N - 1 - i\<close>,
  from the last station down to station 1, and the points with index \<open>N - 1 + i\<close> are the
  lower surface (camber minus thickness) at the stations \<open>i\<close>, from station 0 up to the
  last one. The leading-edge station \<open>x = 0\<close> occurs at index \<open>N - 1\<close> and nowhere else,
  so it is not duplicated at the join; for \<open>N \<ge> 2\<close> station 0 is \<open>x = 0\<close> and the last
  station is \<open>x = 1\<close>.
\<close>

theorem airfoil_boundary_order:
  assumes "0 \<le> code" and "code < 10000"
  shows "\<exists>A. Airfoil_init code N zero_thick_te uniform = Inr A
           \<and> length (a_x A) = 2 * N - 1 \<and> length (a_y A) = 2 * N - 1
           \<and> (\<forall>i. Suc i < N \<longrightarrow>
                  a_x A ! i = stations uniform N ! (N - 1 - i)
                \<and> a_y A ! i =
                    camber_at (0.01 * real_of_int (code div 1000))
                      (0.1 * real_of_int (code div 100 mod 10)) (stations uniform N ! (N - 1 - i))
                    + thick_at (0.01 * real_of_int (code mod 100)) zero_thick_te
                        (stations uniform N ! (N - 1 - i)))
           \<and> (\<forall>i. i < N \<longrightarrow>
                  a_x A ! (N - 1 + i) = stations uniform N ! i
                \<and> a_y A ! (N - 1 + i) =
                    camber_at (0.01 * real_of_int (code div 1000))
                      (0.1 * real_of_int (code div 100 mod 10)) (stations uniform N ! i)
                    - thick_at (0.01 * real_of_int (code mod 100)) zero_thick_te
                        (stations uniform N ! i))
           \<and> (\<forall>j. j < 2 * N - 1 \<longrightarrow> (a_x A ! j = 0 \<longleftrightarrow> j = N - 1))
           \<and> (2 \<le> N \<longrightarrow> stations uniform N ! 0 = 0 \<and> stations uniform N ! (N - 1) = 1)"
proof -
  let ?x = "stations uniform N"
  let ?cf = "camber_at (0.01 * real_of_int (code div 1000)) (0.1 * real_of_int (code div 100 mod 10))"
  let ?tf = "thick_at (0.01 * real_of_int (code mod 100)) zero_thick_te"
  let ?c = "map ?cf ?x" and ?t = "map ?tf ?x"
  let ?A = "\<lparr>a_x = rev (tl ?x) @ ?x,
             a_y = map (\<lambda>(c, t). c + t) (zip (rev (tl ?c)) (rev (tl ?t)))
                   @ map (\<lambda>(c, t). c - t) (zip ?c ?t)\<rparr>"
  have A: "Airfoil_init code N zero_thick_te uniform = Inr ?A"
    by (rule Airfoil_init_valid [OF assms])
  have lx: "length (a_x ?A) = 2 * N - 1" by simp
  have ly: "length (a_y ?A) = 2 * N - 1" by simp
  have upper: "a_x ?A ! i = ?x ! (N - 1 - i) \<and> a_y ?A ! i = ?cf (?x ! (N - 1 - i)) + ?tf (?x ! (N - 1 - i))"
    if i: "Suc i < N" for i
  proof -
    have "(rev (tl ?x) @ ?x) ! i = ?x ! (N - 1 - i)"
      using nth_rev_tl_append_front [of i ?x] i by simp
    moreover have "(map (\<lambda>(c, t). c + t) (zip (rev (tl ?c)) (rev (tl ?t)))
                    @ map (\<lambda>(c, t). c - t) (zip ?c ?t)) ! i
                   = ?c ! (N - 1 - i) + ?t ! (N - 1 - i)"
      using nth_surface_front [of i ?c ?t] i by simp
    moreover have "N - 1 - i < N" using i by simp
    ultimately show ?thesis by simp
  qed
  have lower: "a_x ?A ! (N - 1 + i) = ?x ! i \<and> a_y ?A ! (N - 1 + i) = ?cf (?x ! i) - ?tf (?x ! i)"
    if i: "i < N" for i
  proof -
    have "(rev (tl ?x) @ ?x) ! (N - 1 + i) = ?x ! i"
      using nth_rev_tl_append_back [of ?x ?x i] by simp
    moreover have "(map (\<lambda>(c, t). c + t) (zip (rev (tl ?c)) (rev (tl ?t)))
                    @ map (\<lambda>(c, t). c - t) (zip ?c ?t)) ! (N - 1 + i)
                   = ?c ! i - ?t ! i"
      using nth_surface_back [of i ?c ?t] i by simp
    ultimately show ?thesis using i by simp
  qed
  have once: "a_x ?A ! j = 0 \<longleftrightarrow> j = N - 1" if j: "j < 2 * N - 1" for j
  proof (cases "Suc j < N")
    case True
    then have "a_x ?A ! j = ?x ! (N - 1 - j)" using upper by blast
    moreover have "N - 1 - j < N" "N - 1 - j \<noteq> 0" using True by simp_all
    ultimately show ?thesis using stations_zero_iff [of "N - 1 - j" N uniform] True by simp
  next
    case False
    define i where "i = j - (N - 1)"
    have i: "i < N" "j = N - 1 + i" using False j by (simp_all add: i_def)
    then have "a_x ?A ! j = ?x ! i" using lower by blast
    moreover have "?x ! i = 0 \<longleftrightarrow> i = 0" by (rule stations_zero_iff [OF i(1)])
    moreover have "i = 0 \<longleftrightarrow> j = N - 1" using i by arith
    ultimately show ?thesis by (simp only:)
  qed
  have ends: "2 \<le> N \<longrightarrow> ?x ! 0 = 0 \<and> ?x ! (N - 1) = 1"
    using stations_first [of N uniform] stations_last [of N uniform] by simp
  show ?thesis
    using A lx ly upper lower once ends by blast
qed

lemma stations_uniform_2: "stations True 2 = [0, 1]"
  by (simp add: stations_def linspace_def upt_rec)

lemma naca0012_two_stations:
  "Airfoil_init 12 2 False True = Inr \<lparr>a_x = [1, 0, 1], a_y = [63 / 50000, 0, - (63 / 50000)]\<rparr>"
  unfolding Airfoil_init_valid [of 12, simplified] stations_uniform_2
  by (simp add: thick_at_def camber_at_def polyval_def)

theorem airfoil_boundary_order_witness:
  "(0::int) \<le> 12 \<and> (12::int) < 10000
   \<and> (\<exists>A. Airfoil_init 12 2 False True = Inr A \<and> length (a_x A) = 3
          \<and> a_x A ! 0 = 1 \<and> a_x A ! 1 = 0 \<and> a_x A ! 2 = 1)"
proof -
  have h1: "(0::int) \<le> 12" and h2: "(12::int) < 10000" by simp_all
  obtain A where A: "Airfoil_init 12 2 False True = Inr A"
    and l: "length (a_x A) = 2 * 2 - 1"
    and up: "\<forall>i. Suc i < 2 \<longrightarrow> a_x A ! i = stations True 2 ! (2 - 1 - i)"
    and lo: "\<forall>i. i < 2 \<longrightarrow> a_x A ! (2 - 1 + i) = stations True 2 ! i"
    using airfoil_boundary_order [OF h1 h2, of 2 False True] by blast
  have "a_x A ! 0 = 1" using up [rule_format, of 0] by (simp add: stations_uniform_2)
  moreover have "a_x A ! 1 = 0" using lo [rule_format, of 0] by (simp add: stations_uniform_2)
  moreover have "a_x A ! 2 = 1"
  proof -
    have "a_x A ! (2 - 1 + 1) = stations True 2 ! 1" using lo [rule_format, of 1] by simp
    moreover have "(2::nat) - 1 + 1 = 2" by simp
    ultimately have "a_x A ! 2 = stations True 2 ! 1" by (simp only:)
    then show ?thesis by (simp add: stations_uniform_2)
  qed
  ultimately show ?thesis using A l by simp
qed

theorem leading_edge_duplicated_counterexample:
  "Airfoil_init 12 2 False True = Inr \<lparr>a_x = [1, 0, 1], a_y = [63 / 50000, 0, - (63 / 50000)]\<rparr>
   \<and> count_list (zip [1, 0, 1 :: real] [63 / 50000, 0, - (63 / 50000) :: real]) (0, 0) = 1
   \<and> length [1, 0, 1 :: real] \<noteq> 2 * 2
   \<and> (1 :: real, 63 / 50000 :: real) \<noteq> (1, - (63 / 50000))"
  using naca0012_two_stations by simp

text \<open>
  C8. A code whose formatted string does not have length 4 is rejected at construction
  with the \<open>ValueError\<close> of the four-digit check, and a code whose formatted string is not
  four decimal digits is rejected at construction with an error.
\<close>

theorem airfoil_rejects_bad_code:
  "(length (format_04d code) \<noteq> 4 \<longrightarrow>
      Airfoil_init code N zero_thick_te uniform
        = Inl (ValueError ''NACA designation is more than 4 digits''))
   \<and> (\<not> (length (format_04d code) = 4 \<and> list_all is_digit (format_04d code)) \<longrightarrow>
        isl (Airfoil_init code N zero_thick_te uniform))"
proof -
  have a: "length (format_04d code) \<noteq> 4 \<Longrightarrow>
      Airfoil_init code N zero_thick_te uniform
        = Inl (ValueError ''NACA designation is more than 4 digits'')"
    by (simp add: Airfoil_init_def Let_def)
  have b: "isl (Airfoil_init code N zero_thick_te uniform)"
    if l: "length (format_04d code) = 4" and d: "\<not> list_all is_digit (format_04d code)"
  proof -
    obtain c0 c1 c2 c3 where s: "format_04d code = [c0, c1, c2, c3]"
      using l by (auto simp add: length_Suc_conv numeral_eq_Suc)
    have "\<not> is_digit c0 \<or> \<not> is_digit c1 \<or> \<not> is_digit c2 \<or> \<not> is_digit c3"
      using d by (simp add: s)
    then show ?thesis
      unfolding Airfoil_init_def Let_def s
      by (auto simp add: py_int_def split: sum.splits)
  qed
  show ?thesis
    using a b by (cases "length (format_04d code) = 4") auto
qed

theorem airfoil_rejects_bad_code_witness:
  "length (format_04d 99999) \<noteq> 4
   \<and> Airfoil_init 99999 20 False False = Inl (ValueError ''NACA designation is more than 4 digits'')
   \<and> \<not> (length (format_04d (- 12)) = 4 \<and> list_all is_digit (format_04d (- 12)))
   \<and> isl (Airfoil_init (- 12) 20 False False)"
proof -
  have f1: "format_04d 99999 = ''99999''"
    by (simp add: format_04d_def dec_digits.simps digit_char_def)
  have f2: "format_04d (- 12) = ''-012''"
    by (simp add: format_04d_def dec_digits.simps digit_char_def)
  have h1: "length (format_04d 99999) \<noteq> 4" by (simp add: f1)
  have h2: "\<not> (length (format_04d (- 12)) = 4 \<and> list_all is_digit (format_04d (- 12)))"
    by (simp add: f2 is_digit_def)
  show ?thesis
    using h1 h2 airfoil_rejects_bad_code [of 99999 20 False False]
      airfoil_rejects_bad_code [of "- 12" 20 False False]
    by blast
qed

text \<open>
  C10. For every non-negative code below 10000 the formatted string is the decimal
  digits padded with zeros on the left to exactly four digits (12 becomes 0012), the
  four-digit check passes and construction returns an airfoil; for a non-negative code
  the four-digit check fails exactly when the code is 10000 or more.
\<close>

theorem airfoil_accepts_below_10000:
  assumes "0 \<le> code"
  shows "(code < 10000 \<longrightarrow>
            format_04d code
              = replicate (4 - length (dec_digits (nat code))) CHR ''0'' @ dec_digits (nat code)
          \<and> length (format_04d code) = 4 \<and> list_all is_digit (format_04d code)
          \<and> (\<exists>A. Airfoil_init code N zero_thick_te uniform = Inr A))
       \<and> (length (format_04d code) \<noteq> 4 \<longleftrightarrow> 10000 \<le> code)
       \<and> format_04d 12 = ''0012''"
proof -
  have pad: "format_04d code
              = replicate (4 - length (dec_digits (nat code))) CHR ''0'' @ dec_digits (nat code)"
    using assms by (simp add: format_04d_def)
  have small: "length (format_04d code) = 4 \<and> list_all is_digit (format_04d code)
          \<and> (\<exists>A. Airfoil_init code N zero_thick_te uniform = Inr A)" if c: "code < 10000"
  proof -
    have k: "nat code < 10000" using c assms by simp
    then have "nat code div 1000 < 10" "nat code div 100 mod 10 < 10"
      "nat code div 10 mod 10 < 10" "nat code mod 10 < 10" by simp_all
    then show ?thesis
      unfolding format_04d_digits [OF assms c] Airfoil_init_valid [OF assms c]
      by (simp add: digit_char_props)
  qed
  have big: "length (format_04d code) \<noteq> 4" if c: "10000 \<le> code"
  proof -
    have "10000 \<le> nat code" using c by simp
    then have "5 \<le> length (dec_digits (nat code))" by (rule length_dec_digits_ge)
    then show ?thesis unfolding pad by simp
  qed
  have ex: "format_04d 12 = ''0012''"
    by (simp add: format_04d_def dec_digits.simps digit_char_def numeral_2_eq_2)
  show ?thesis
    using pad small big ex by (metis not_less)
qed

theorem airfoil_accepts_below_10000_witness:
  "(0::int) \<le> 12 \<and> (12::int) < 10000 \<and> format_04d 12 = ''0012''
   \<and> length (format_04d 12) = 4
   \<and> (\<exists>A. Airfoil_init 12 20 False False = Inr A)"
proof -
  have h: "(0::int) \<le> 12" and h2: "(12::int) < 10000" by simp_all
  show ?thesis
    using h h2 airfoil_accepts_below_10000 [OF h, of 20 False False] by blast
qed

section \<open>Properties of bodies and decorators\<close>

lemma get_body_skel:
  assumes "map skel s = map skel s'"
  shows "get_body s a = get_body s' a"
proof -
  have l: "length s = length s'" using assms by (metis length_map)
  show ?thesis
  proof (cases "a < length s")
    case True
    then have "skel (s ! a) = skel (s' ! a)"
      using assms l by (metis nth_map)
    then show ?thesis
      using True l by (cases "s ! a"; cases "s' ! a") (simp_all add: get_body_def)
  next
    case False
    then show ?thesis using l by (simp add: get_body_def)
  qed
qed

lemma wf_skel:
  assumes "map skel s = map skel s'" and "well_formed s"
  shows "well_formed s'"
proof -
  have l: "length s = length s'" using assms(1) by (metis length_map)
  show ?thesis
    unfolding well_formed_def
  proof (intro allI impI)
    fix a assume a: "a < length s'"
    then have e: "skel (s ! a) = skel (s' ! a)"
      using assms(1) l by (metis nth_map)
    have w: "case s ! a of Body t \<Rightarrow> True | TransformedBody p b tr m \<Rightarrow> p < a \<and> get_body s p = Some b"
      using assms(2) a l by (simp add: well_formed_def)
    show "case s' ! a of Body t \<Rightarrow> True | TransformedBody p b tr m \<Rightarrow> p < a \<and> get_body s' p = Some b"
      using e w get_body_skel [OF assms(1)]
      by (cases "s ! a"; cases "s' ! a") simp_all
  qed
qed

lemma wf_decorator:
  assumes "well_formed s" and "a < length s" and "s ! a = TransformedBody p b tr m"
  shows "p < a" and "get_body s p = Some b"
  using assms by (auto simp add: well_formed_def)

lemma wf_root:
  assumes "well_formed s" and "a < length s"
  shows "\<exists>r t. get_body s a = Some r \<and> r \<le> a \<and> s ! r = Body t"
  using assms(2)
proof (induction a rule: less_induct)
  case (less a)
  show ?case
  proof (cases "s ! a")
    case (Body t)
    then show ?thesis using less.prems by (simp add: get_body_def)
  next
    case (TransformedBody p b tr m)
    have la: "a < length s" by (rule less.prems)
    have p: "p < a" and b: "get_body s p = Some b"
      using wf_decorator [OF assms(1) la TransformedBody] by simp_all
    have "p < length s" using p less.prems by simp
    then obtain r t where "get_body s p = Some r" "r \<le> p" "s ! r = Body t"
      using less.IH [OF p] by blast
    then have "b \<le> a" "s ! b = Body t" using b p by simp_all
    then show ?thesis using TransformedBody less.prems by (simp add: get_body_def)
  qed
qed

lemma chain_less: "in_chain s r a \<Longrightarrow> a < length s"
  by (induction rule: in_chain.induct) simp_all

lemma chain_get_body:
  assumes "well_formed s" and "in_chain s r a"
  shows "get_body s a = Some r"
  using assms(2,1)
proof (induction rule: in_chain.induct)
  case (chain_root r s t)
  then show ?case by (simp add: get_body_def)
next
  case (chain_decorator s r p a b tr m)
  have "get_body s p = Some b"
    using wf_decorator [OF chain_decorator.prems chain_decorator.hyps(2,3)] by simp
  then have "b = r" using chain_decorator.IH [OF chain_decorator.prems] by simp
  then show ?case using chain_decorator.hyps by (simp add: get_body_def)
qed

lemma chain_root_body:
  assumes "in_chain s r a"
  shows "r < length s \<and> (\<exists>t. s ! r = Body t)"
  using assms by (induction rule: in_chain.induct) auto

lemma get_time_root:
  assumes "a < length s" and "get_body s a = Some r" and "r < length s" and "s ! r = Body t"
  shows "get_time s a = Some t"
proof (cases "s ! a")
  case (Body t')
  then have "a = r" using assms by (simp add: get_body_def)
  then show ?thesis using assms by (subst get_time.simps) simp
next
  case (TransformedBody p b tr m)
  then have b: "b = r" using assms by (simp add: get_body_def)
  have "get_time s r = Some t" using assms by (subst get_time.simps) simp
  then show ?thesis using assms TransformedBody b by (subst get_time.simps) simp
qed

lemma set_time_root:
  assumes "a < length s" and "get_body s a = Some r" and "r < length s" and "s ! r = Body t"
  shows "set_time s a v = Some (s[r := Body v])"
proof (cases "s ! a")
  case (Body t')
  then have "a = r" using assms by (simp add: get_body_def)
  then show ?thesis using assms by (subst set_time.simps) simp
next
  case (TransformedBody p b tr m)
  then have b: "b = r" using assms by (simp add: get_body_def)
  have "set_time s r v = Some (s[r := Body v])" using assms by (subst set_time.simps) simp
  then show ?thesis using assms TransformedBody b by (subst set_time.simps) simp
qed

lemma skel_update_time:
  assumes "r < length s" and "s ! r = Body t"
  shows "get_body (s[r := Body v]) a = get_body s a"
  using assms by (cases "a = r") (simp_all add: get_body_def)

lemma wf_update_time:
  assumes "well_formed s" and "r < length s" and "s ! r = Body t"
  shows "well_formed (s[r := Body v])"
  unfolding well_formed_def
proof (intro allI impI)
  fix a assume a: "a < length (s[r := Body v])"
  show "case s[r := Body v] ! a of Body t \<Rightarrow> True
        | TransformedBody p b tr m \<Rightarrow> p < a \<and> get_body (s[r := Body v]) p = Some b"
  proof (cases "a = r")
    case True
    then show ?thesis using assms(2) by simp
  next
    case False
    then show ?thesis
      using assms(1) a skel_update_time [OF assms(2,3)]
      by (auto simp add: well_formed_def split: obj.splits)
  qed
qed

lemma chain_update_time:
  assumes "in_chain s r a" and "r' < length s" and "s ! r' = Body t"
  shows "in_chain (s[r' := Body v]) r a"
  using assms
proof (induction rule: in_chain.induct)
  case (chain_root r s t')
  show ?case
  proof (cases "r = r'")
    case True
    then show ?thesis using chain_root by (intro in_chain.chain_root [of _ _ v]) simp_all
  next
    case False
    then show ?thesis using chain_root by (intro in_chain.chain_root [of _ _ t']) simp_all
  qed
next
  case (chain_decorator s r p a b tr m)
  have "a \<noteq> r'" using chain_decorator by auto
  then have e: "s[r' := Body v] ! a = TransformedBody p b tr m"
    using chain_decorator by simp
  have l: "a < length (s[r' := Body v])" using chain_decorator by simp
  have c: "in_chain (s[r' := Body v]) r p" using chain_decorator by simp
  show ?case by (rule in_chain.chain_decorator [OF c l e])
qed

lemma skel_update_transformation:
  assumes "a < length s" and "s ! a = TransformedBody p b tr m"
  shows "map skel (s[a := TransformedBody p b tr' m]) = map skel s"
proof -
  have "skel (TransformedBody p b tr' m) = skel (s ! a)" using assms(2) by simp
  then show ?thesis
    using assms(1) by (simp add: map_update list_update_same_conv)
qed

lemma update_motion_Body:
  assumes "a < length s" and "s ! a = Body t"
  shows "update_motion s a = Some s"
  using assms by (simp add: update_motion_def)

lemma update_motion_decorator:
  assumes "well_formed s" and "a < length s" and "s ! a = TransformedBody p b tr m"
  shows "\<exists>tr'. update_motion s a = Some (s[a := TransformedBody p b tr' m])
           \<and> (\<forall>A w ph t. m = Pitching A w ph \<longrightarrow> get_time s a = Some t \<longrightarrow>
                  angle tr' = A * sin (w * t + ph))"
proof -
  obtain r t where r: "get_body s a = Some r" "r \<le> a" "s ! r = Body t"
    using wf_root [OF assms(1,2)] by blast
  have gt: "get_time s a = Some t"
    using get_time_root [OF assms(2) r(1) _ r(3)] r(2) assms(2) by simp
  show ?thesis
  proof (cases m)
    case Plain
    have "s[a := TransformedBody p b tr m] = s"
      using assms by (simp add: list_update_same_conv)
    then have "update_motion s a = Some (s[a := TransformedBody p b tr m])"
      using assms Plain by (simp add: update_motion_def)
    then show ?thesis using Plain by blast
  next
    case (Pitching A w ph)
    have "update_motion s a
            = Some (s[a := TransformedBody p b (set_angle tr (A * sin (w * t + ph))) m])"
      using assms Pitching gt by (simp add: update_motion_def set_angle_of_def)
    moreover have "angle (set_angle tr (A * sin (w * t + ph))) = A * sin (w * t + ph)"
      by (simp add: set_angle_def Let_def)
    ultimately show ?thesis using Pitching gt by auto
  next
    case (Heaving d w ph)
    have "update_motion s a
            = Some (s[a := TransformedBody p b (set_displacement tr (vscale d (sin (w * t + ph)))) m])"
      using assms Heaving gt by (simp add: update_motion_def set_displacement_of_def)
    then show ?thesis using Heaving by blast
  qed
qed

lemma get_transformation_total:
  assumes "well_formed s" and "a < length s"
  shows "\<exists>s' T. get_transformation s a = Some (s', T) \<and> map skel s' = map skel s
           \<and> (\<forall>i. a < i \<longrightarrow> s' ! i = s ! i)
           \<and> (\<forall>s1. update_motion s a = Some s1 \<longrightarrow> s' ! a = s1 ! a)"
  using assms
proof (induction a arbitrary: s rule: less_induct)
  case (less a)
  show ?case
  proof (cases "s ! a")
    case (Body t)
    have "get_transformation s a = Some (s, None)"
      using less.prems Body by (subst get_transformation.simps) simp
    moreover have "update_motion s a = Some s"
      by (rule update_motion_Body [OF less.prems(2) Body])
    ultimately show ?thesis by simp
  next
    case (TransformedBody p b tr m)
    have p: "p < a" using wf_decorator [OF less.prems TransformedBody] by simp
    obtain tr' where u: "update_motion s a = Some (s[a := TransformedBody p b tr' m])"
      using update_motion_decorator [OF less.prems TransformedBody] by blast
    let ?s1 = "s[a := TransformedBody p b tr' m]"
    have sk1: "map skel ?s1 = map skel s"
      by (rule skel_update_transformation [OF less.prems(2) TransformedBody])
    have wf1: "well_formed ?s1" by (rule wf_skel [OF sk1 [symmetric] less.prems(1)])
    have p1: "p < length ?s1" using p less.prems(2) by simp
    obtain s2 pt where g: "get_transformation ?s1 p = Some (s2, pt)"
      and sk2: "map skel s2 = map skel ?s1"
      and same: "\<forall>i. p < i \<longrightarrow> s2 ! i = ?s1 ! i"
      using less.IH [OF p wf1 p1] by blast
    have l2: "length s2 = length s" using sk2 sk1 by (metis length_map)
    have a2: "s2 ! a = TransformedBody p b tr' m"
      using same p less.prems(2) by simp
    have "get_transformation s a = Some (s2, Some (compose tr' pt))"
      using less.prems(2) TransformedBody u g l2 a2
      by (subst get_transformation.simps) simp
    moreover have "map skel s2 = map skel s" using sk2 sk1 by simp
    moreover have "\<forall>i. a < i \<longrightarrow> s2 ! i = s ! i"
      using same p by simp
    moreover have "\<forall>s1. update_motion s a = Some s1 \<longrightarrow> s2 ! a = s1 ! a"
      using u a2 less.prems(2) by simp
    ultimately show ?thesis by blast
  qed
qed

lemma get_transformation_length:
  assumes "get_transformation s a = Some (s', T)"
  shows "a < length s"
proof (rule ccontr)
  assume "\<not> a < length s"
  then have "get_transformation s a = None"
    by (subst get_transformation.simps) simp
  then show False using assms by simp
qed

lemma set_time_length:
  assumes "set_time s a v = Some s'"
  shows "a < length s"
proof (rule ccontr)
  assume "\<not> a < length s"
  then have "set_time s a v = None"
    by (subst set_time.simps) simp
  then show False using assms by simp
qed

lemma wf_append_decorator:
  assumes "well_formed s" and "get_body s body = Some b"
  shows "well_formed (s @ [TransformedBody body b tr m])"
proof -
  have body: "body < length s"
    using assms(2) by (simp add: get_body_def split: if_splits)
  have gb: "get_body (s @ [x]) c = get_body s c" if "c < length s" for c x
    using that by (simp add: get_body_def nth_append)
  show ?thesis
    unfolding well_formed_def
  proof (intro allI impI)
    fix a assume a: "a < length (s @ [TransformedBody body b tr m])"
    show "case (s @ [TransformedBody body b tr m]) ! a of Body t \<Rightarrow> True
          | TransformedBody p b' tr' m' \<Rightarrow>
              p < a \<and> get_body (s @ [TransformedBody body b tr m]) p = Some b'"
    proof (cases "a < length s")
      case True
      then have "case s ! a of Body t \<Rightarrow> True
          | TransformedBody p b' tr' m' \<Rightarrow> p < a \<and> get_body s p = Some b'"
        using assms(1) by (simp add: well_formed_def)
      then show ?thesis
        using True gb by (auto simp add: nth_append split: obj.splits)
    next
      case False
      then have "a = length s" using a by simp
      then show ?thesis using body assms(2) gb by simp
    qed
  qed
qed

lemma wf_append_Body:
  assumes "well_formed s"
  shows "well_formed (s @ [Body t])"
proof -
  have gb: "get_body (s @ [x]) c = get_body s c" if "c < length s" for c x
    using that by (simp add: get_body_def nth_append)
  show ?thesis
    unfolding well_formed_def
  proof (intro allI impI)
    fix a assume a: "a < length (s @ [Body t])"
    show "case (s @ [Body t]) ! a of Body t \<Rightarrow> True
          | TransformedBody p b' tr' m' \<Rightarrow> p < a \<and> get_body (s @ [Body t]) p = Some b'"
    proof (cases "a < length s")
      case True
      then have "case s ! a of Body t \<Rightarrow> True
          | TransformedBody p b' tr' m' \<Rightarrow> p < a \<and> get_body s p = Some b'"
        using assms(1) by (simp add: well_formed_def)
      then show ?thesis
        using True gb by (auto simp add: nth_append split: obj.splits)
    next
      case False
      then have "a = length s" using a by simp
      then show ?thesis by simp
    qed
  qed
qed

lemma built_wf:
  assumes "built s"
  shows "well_formed s"
  using assms
proof (induction rule: built.induct)
  case built_empty
  show ?case by (simp add: well_formed_def)
next
  case (built_Body s)
  then show ?case by (simp add: Body_init_def wf_append_Body)
next
  case (built_TransformedBody s body ang disp s' a)
  then show ?case
    by (auto simp add: TransformedBody_init_def wf_append_decorator split: option.splits)
next
  case (built_Pitching s body amplitude frequency phase s' a)
  then show ?case
    by (auto simp add: Pitching_init_def wf_append_decorator split: option.splits)
next
  case (built_Heaving s body d frequency phase s' a)
  then show ?case
    by (auto simp add: Heaving_init_def wf_append_decorator split: option.splits)
next
  case (built_set_time s a v s')
  have a: "a < length s" by (rule set_time_length [OF built_set_time.hyps(2)])
  obtain r t where r: "get_body s a = Some r" "r \<le> a" "s ! r = Body t"
    using wf_root [OF built_set_time.IH a] by blast
  have rl: "r < length s" using r(2) a by simp
  have "s' = s[r := Body v]"
    using set_time_root [OF a r(1) rl r(3), of v] built_set_time.hyps(2) by simp
  then show ?case using wf_update_time [OF built_set_time.IH rl r(3)] by simp
next
  case (built_set_angle s a v s')
  then show ?case
    by (auto simp add: set_angle_of_def split: if_splits obj.splits
        intro: wf_skel [OF skel_update_transformation [symmetric]])
next
  case (built_set_displacement s a d s')
  then show ?case
    by (auto simp add: set_displacement_of_def split: if_splits obj.splits
        intro: wf_skel [OF skel_update_transformation [symmetric]])
next
  case (built_get_transformation s a s' T)
  have a: "a < length s" by (rule get_transformation_length [OF built_get_transformation.hyps(2)])
  have "map skel s' = map skel s"
    using get_transformation_total [OF built_get_transformation.IH a]
      built_get_transformation.hyps(2) by auto
  then show ?case using wf_skel [of s s'] built_get_transformation.IH by simp
qed

lemma chain_time:
  assumes "well_formed s" and "in_chain s r a"
  shows "\<exists>t. s ! r = Body t \<and> get_time s a = Some t \<and> get_time s r = Some t"
    and "set_time s a v = Some (s[r := Body v])"
proof -
  have a: "a < length s" by (rule chain_less [OF assms(2)])
  obtain t where r: "r < length s" "s ! r = Body t"
    using chain_root_body [OF assms(2)] by blast
  have gb: "get_body s a = Some r" by (rule chain_get_body [OF assms])
  have gr: "get_body s r = Some r" using r by (simp add: get_body_def)
  show "\<exists>t. s ! r = Body t \<and> get_time s a = Some t \<and> get_time s r = Some t"
    using get_time_root [OF a gb r] get_time_root [OF r(1) gr r] r(2) by simp
  show "set_time s a v = Some (s[r := Body v])"
    by (rule set_time_root [OF a gb r])
qed

lemma set_times_chain:
  assumes "built s" and "\<forall>w \<in> set ws. in_chain s r (fst w)"
  shows "\<exists>s'. set_times s ws = Some s' \<and> built s'
           \<and> (\<forall>d. in_chain s r d \<longrightarrow> in_chain s' r d)
           \<and> (ws \<noteq> [] \<longrightarrow> s' ! r = Body (snd (last ws)))"
  using assms
proof (induction ws arbitrary: s)
  case Nil
  then show ?case by simp
next
  case (Cons w ws)
  obtain a v where w: "w = (a, v)" by (cases w)
  have c: "in_chain s r a" using Cons.prems(2) w by simp
  have wfs: "well_formed s" by (rule built_wf [OF Cons.prems(1)])
  obtain t where r: "r < length s" "s ! r = Body t"
    using chain_root_body [OF c] by blast
  let ?s1 = "s[r := Body v]"
  have st: "set_time s a v = Some ?s1" by (rule chain_time(2) [OF wfs c])
  have b1: "built ?s1" by (rule built_set_time [OF Cons.prems(1) st])
  have keep: "in_chain ?s1 r d" if "in_chain s r d" for d
    by (rule chain_update_time [OF that r])
  have "\<forall>w \<in> set ws. in_chain ?s1 r (fst w)"
    using Cons.prems(2) keep by simp
  then obtain s' where s': "set_times ?s1 ws = Some s'" "built s'"
    "\<forall>d. in_chain ?s1 r d \<longrightarrow> in_chain s' r d" "ws \<noteq> [] \<longrightarrow> s' ! r = Body (snd (last ws))"
    using Cons.IH [OF b1] by blast
  have "set_times s (w # ws) = Some s'" using st s'(1) w by simp
  moreover have "\<forall>d. in_chain s r d \<longrightarrow> in_chain s' r d" using keep s'(3) by blast
  moreover have "s' ! r = Body (snd (last (w # ws)))"
  proof (cases "ws = []")
    case True
    then have "s' = ?s1" using s'(1) by simp
    then show ?thesis using True w r by simp
  next
    case False
    then show ?thesis using s'(4) by simp
  qed
  ultimately show ?case using s'(2) by blast
qed

text \<open>
  C4. In every heap built by the constructors and methods, for every object \<open>a\<close> of a
  decorator in_chain over a root body \<open>r\<close>: reading \<open>time\<close> on \<open>a\<close> returns the \<open>_time\<close> stored
  in \<open>r\<close>; writing \<open>time\<close> on \<open>a\<close> changes the heap in that one field of \<open>r\<close> only; and after
  any sequence of time writes through objects of the in_chain, every object of the in_chain
  reads the same time as the root, which is the value written last.
\<close>

theorem time_shared_through_chain:
  assumes "built s" and "in_chain s r a"
  shows "(\<exists>t. s ! r = Body t \<and> get_time s a = Some t)
       \<and> (\<forall>v. set_time s a v = Some (s[r := Body v]))
       \<and> (\<forall>ws. (\<forall>w \<in> set ws. in_chain s r (fst w)) \<longrightarrow>
             (\<exists>s'. set_times s ws = Some s'
                \<and> (\<forall>d. in_chain s r d \<longrightarrow> in_chain s' r d \<and> get_time s' d = get_time s' r)
                \<and> (ws \<noteq> [] \<longrightarrow> get_time s' a = Some (snd (last ws)))))"
proof -
  have wfs: "well_formed s" by (rule built_wf [OF assms(1)])
  have rd: "\<exists>t. s ! r = Body t \<and> get_time s a = Some t"
    using chain_time(1) [OF wfs assms(2)] by blast
  have wr: "\<forall>v. set_time s a v = Some (s[r := Body v])"
    using chain_time(2) [OF wfs assms(2)] by blast
  have sq: "\<exists>s'. set_times s ws = Some s'
                \<and> (\<forall>d. in_chain s r d \<longrightarrow> in_chain s' r d \<and> get_time s' d = get_time s' r)
                \<and> (ws \<noteq> [] \<longrightarrow> get_time s' a = Some (snd (last ws)))"
    if ws: "\<forall>w \<in> set ws. in_chain s r (fst w)" for ws
  proof -
    obtain s' where s': "set_times s ws = Some s'" "built s'"
      "\<forall>d. in_chain s r d \<longrightarrow> in_chain s' r d" "ws \<noteq> [] \<longrightarrow> s' ! r = Body (snd (last ws))"
      using set_times_chain [OF assms(1) ws] by blast
    have wf': "well_formed s'" by (rule built_wf [OF s'(2)])
    have same: "in_chain s' r d \<and> get_time s' d = get_time s' r" if "in_chain s r d" for d
    proof -
      have c: "in_chain s' r d" using s'(3) that by blast
      show ?thesis using chain_time(1) [OF wf' c] c by auto
    qed
    have last: "get_time s' a = Some (snd (last ws))" if "ws \<noteq> []"
    proof -
      have c: "in_chain s' r a" using s'(3) assms(2) by blast
      show ?thesis using chain_time(1) [OF wf' c] s'(4) that by auto
    qed
    show ?thesis using s'(1) same last by blast
  qed
  show ?thesis using rd wr sq by blast
qed

lemma example_heap_built: "built example_heap"
proof -
  have b0: "built (fst (Body_init []))" by (rule built_Body [OF built_empty])
  have p: "Pitching_init (fst (Body_init [])) 0 3 2 0
             = Some ([Body 0, TransformedBody 0 0 (EuclideanTransformation_init 0 (0, 0))
                               (Pitching 3 2 (0 * pi / 180))], 1)"
    by (simp add: Pitching_init_def Body_init_def get_body_def)
  have b1: "built [Body 0, TransformedBody 0 0 (EuclideanTransformation_init 0 (0, 0))
                               (Pitching 3 2 (0 * pi / 180))]"
    by (rule built_Pitching [OF b0 p])
  have h: "Heaving_init [Body 0, TransformedBody 0 0 (EuclideanTransformation_init 0 (0, 0))
                               (Pitching 3 2 (0 * pi / 180))] 1 (0, 1) 1 0
             = Some (example_heap, 2)"
    by (simp add: Heaving_init_def get_body_def example_heap_def)
  show ?thesis by (rule built_Heaving [OF b1 h])
qed

lemma example_heap_chain: "in_chain example_heap 0 0" "in_chain example_heap 0 1" "in_chain example_heap 0 2"
proof -
  show c0: "in_chain example_heap 0 0"
    by (rule chain_root [of _ _ 0]) (simp_all add: example_heap_def)
  show c1: "in_chain example_heap 0 1"
    by (rule chain_decorator [OF c0]) (simp_all add: example_heap_def)
  show "in_chain example_heap 0 2"
    by (rule chain_decorator [OF c1]) (simp_all add: example_heap_def)
qed

theorem time_shared_through_chain_witness:
  "built example_heap \<and> in_chain example_heap 0 2
   \<and> get_time example_heap 2 = Some 0
   \<and> set_time example_heap 2 5 = Some (example_heap[0 := Body 5])
   \<and> (\<exists>s'. set_times example_heap [(2, 5), (1, 7)] = Some s'
          \<and> get_time s' 2 = Some 7 \<and> get_time s' 1 = get_time s' 0
          \<and> get_time s' 2 = get_time s' 0)"
proof -
  note t = time_shared_through_chain [OF example_heap_built example_heap_chain(3)]
  have rd: "get_time example_heap 2 = Some 0"
    using t by (auto simp add: example_heap_def)
  have wr: "set_time example_heap 2 5 = Some (example_heap[0 := Body 5])"
    using t by blast
  have ws: "\<forall>w \<in> set [(2, 5), (1, 7 :: real)]. in_chain example_heap 0 (fst w)"
    using example_heap_chain by simp
  obtain s' where s': "set_times example_heap [(2, 5), (1, 7)] = Some s'"
    "\<forall>d. in_chain example_heap 0 d \<longrightarrow> in_chain s' 0 d \<and> get_time s' d = get_time s' 0"
    "get_time s' 2 = Some (snd (last [(2 :: nat, 5 :: real), (1, 7)]))"
    using t ws by (metis list.distinct(1))
  have "get_time s' 2 = Some 7" using s'(3) by simp
  moreover have "get_time s' 1 = get_time s' 0" "get_time s' 2 = get_time s' 0"
    using s'(2) example_heap_chain by blast+
  ultimately show ?thesis
    using example_heap_built example_heap_chain(3) rd wr s'(1) by blast
qed



end
